theory Spec2Isabelle
  imports Complex_Main "HOL-Library.Monad_Syntax"
begin

section \<open>Strings of the host language\<close>

text \<open>
  A JavaScript string is a sequence of UTF-16 code units. The embedding writes it as a
  \<open>string\<close> (a list of 8-bit characters), one character per code unit, and so covers the
  texts whose code units lie below 256 (ASCII and Latin-1). The character classes below are
  the host's classes cut down to that range.
\<close>

definition code :: "char \<Rightarrow> nat" where
  "code c = of_char c"

definition isWhiteSpace :: "char \<Rightarrow> bool" where
  \<comment> \<open>\<open>\s\<close> of a regular expression, and what \<open>trim\<close> strips: TAB, LF, VT, FF, CR, SP, NBSP.\<close>
  "isWhiteSpace c = (code c \<in> {9, 10, 11, 12, 13, 32, 160})"

definition isDigit :: "char \<Rightarrow> bool" where
  "isDigit c = (48 \<le> code c \<and> code c \<le> 57)"

definition isWordChar :: "char \<Rightarrow> bool" where
  \<comment> \<open>\<open>\w\<close> without the unicode flag: \<open>[A-Za-z0-9_]\<close>.\<close>
  "isWordChar c =
     ((65 \<le> code c \<and> code c \<le> 90) \<or> (97 \<le> code c \<and> code c \<le> 122) \<or> isDigit c \<or> code c = 95)"

definition trim :: "string \<Rightarrow> string" where
  "trim s = rev (dropWhile isWhiteSpace (rev (dropWhile isWhiteSpace s)))"

definition lowerChar :: "char \<Rightarrow> char" where
  \<comment> \<open>A-Z, and the Latin-1 capitals U+00C0..U+00DE without the sign U+00D7.\<close>
  "lowerChar c =
     (if (65 \<le> code c \<and> code c \<le> 90) \<or> (192 \<le> code c \<and> code c \<le> 222 \<and> code c \<noteq> 215)
      then char_of (code c + 32) else c)"

definition toLowerCase :: "string \<Rightarrow> string" where
  "toLowerCase s = map lowerChar s"

definition startsWith :: "string \<Rightarrow> string \<Rightarrow> bool" where
  "startsWith s p = (take (length p) s = p)"

fun includesStr :: "string \<Rightarrow> string \<Rightarrow> bool" where
  \<comment> \<open>\<open>hay.includes(needle)\<close>: the needle occurs at some position of the text.\<close>
  "includesStr [] needle = (needle = [])"
| "includesStr (c # cs) needle = (startsWith (c # cs) needle \<or> includesStr cs needle)"

definition replaceAll :: "char \<Rightarrow> char \<Rightarrow> string \<Rightarrow> string" where
  \<comment> \<open>\<open>str.replace(/a/g, b)\<close> for one-character \<open>a\<close> and \<open>b\<close>.\<close>
  "replaceAll a b s = map (\<lambda>c. if c = a then b else c) s"

fun removeFirst :: "char \<Rightarrow> string \<Rightarrow> string" where
  \<comment> \<open>\<open>str.replace(a, '')\<close> with a string pattern: only the first occurrence goes.\<close>
  "removeFirst a [] = []"
| "removeFirst a (c # cs) = (if c = a then cs else c # removeFirst a cs)"

section \<open>Description cleanup\<close>

text \<open>
  \<^verbatim>\<open>
  const cleanDescription = (text: string): string => {
    if (!text) return '';
    const hashtagIndex = text.search(/\s#\w+/);
    return hashtagIndex > -1 ? text.slice(0, hashtagIndex).trim() : text.trim();
  };
  \<close>
\<close>

fun hashtagHere :: "string \<Rightarrow> bool" where
  \<comment> \<open>Does \<open>/\s#\w+/\<close> match at the start of the text? One word character is enough.\<close>
  "hashtagHere (a # b # c # _) = (isWhiteSpace a \<and> b = CHR ''#'' \<and> isWordChar c)"
| "hashtagHere _ = False"

fun searchHashtag :: "string \<Rightarrow> nat option" where
  \<comment> \<open>\<open>text.search(/\s#\w+/)\<close>: the index of the first match, \<open>None\<close> for \<open>-1\<close>.\<close>
  "searchHashtag [] = None"
| "searchHashtag (c # cs) =
     (if hashtagHere (c # cs) then Some 0 else map_option Suc (searchHashtag cs))"

definition cleanDescription :: "string \<Rightarrow> string" where
  "cleanDescription text =
     (if text = [] then []
      else case searchHashtag text of
             Some hashtagIndex \<Rightarrow> trim (take hashtagIndex text)
           | None \<Rightarrow> trim text)"

section \<open>Numbers of the host language\<close>

text \<open>
  A number is written with its exact rational value; the rounding of a literal to a
  binary64 float is outside the embedding, and so are the overflow of a huge literal to
  an infinity and the underflow of a tiny one to zero.
\<close>

datatype jsnum = NaN | Num rat | PosInfinity | NegInfinity

definition digitsVal :: "string \<Rightarrow> nat" where
  "digitsVal ds = foldl (\<lambda>a c. 10 * a + (code c - 48)) 0 ds"

definition scale10 :: "rat \<Rightarrow> int \<Rightarrow> rat" where
  "scale10 x e = (if 0 \<le> e then x * 10 ^ nat e else x / 10 ^ nat (- e))"

definition decimalValue :: "string \<Rightarrow> string \<Rightarrow> int \<Rightarrow> rat" where
  \<comment> \<open>The value of \<open>ip.fp\<close> times ten to the \<open>e\<close>.\<close>
  "decimalValue ip fp e = scale10 (of_nat (digitsVal (ip @ fp))) (e - int (length fp))"

definition exponentPart :: "string \<Rightarrow> (int \<times> string) option" where
  \<comment> \<open>An optional \<open>[eE][+-]?[0-9]+\<close>; \<open>None\<close> when the \<open>e\<close> is there and its digits are not.\<close>
  "exponentPart cs =
     (case cs of
        [] \<Rightarrow> Some (0, [])
      | c # r \<Rightarrow>
          if c = CHR ''e'' \<or> c = CHR ''E'' then
            (let neg = (r \<noteq> [] \<and> hd r = CHR ''-'');
                 r' = (if r \<noteq> [] \<and> (hd r = CHR ''-'' \<or> hd r = CHR ''+'') then tl r else r);
                 ds = takeWhile isDigit r'
             in if ds = [] then None
                else Some ((if neg then - int (digitsVal ds) else int (digitsVal ds)),
                           dropWhile isDigit r'))
          else Some (0, c # r))"

section \<open>JSON.parse\<close>

text \<open>
  The grammar of JSON texts, as a recursive descent over the characters: a value is an
  array, an object, a string, a number or one of the three literals, with white space
  around it. A parsing function returns the value and the text that follows it, or
  \<open>None\<close> where \<open>JSON.parse\<close> throws its SyntaxError.
\<close>

datatype json =
    JNull
  | JBool bool
  | JNumber rat
  | JString string
  | JArray "json list"
  | JObject "(string \<times> json) list"

definition isJsonWs :: "char \<Rightarrow> bool" where
  \<comment> \<open>JSON white space: TAB, LF, CR, SP.\<close>
  "isJsonWs c = (code c \<in> {9, 10, 13, 32})"

definition skipWs :: "string \<Rightarrow> string" where
  "skipWs cs = dropWhile isJsonWs cs"

definition hexVal :: "char \<Rightarrow> nat option" where
  "hexVal c =
     (if isDigit c then Some (code c - 48)
      else if 97 \<le> code c \<and> code c \<le> 102 then Some (code c - 87)
      else if 65 \<le> code c \<and> code c \<le> 70 then Some (code c - 55)
      else None)"

definition hex4 :: "string \<Rightarrow> nat option" where
  "hex4 cs =
     (case map hexVal (take 4 cs) of
        [Some a, Some b, Some c, Some d] \<Rightarrow> Some (((a * 16 + b) * 16 + c) * 16 + d)
      | _ \<Rightarrow> None)"

definition escapeChar :: "char \<Rightarrow> char option" where
  "escapeChar e =
     (if e = CHR 0x22 then Some (CHR 0x22)
      else if e = CHR 0x5C then Some (CHR 0x5C)
      else if e = CHR ''/'' then Some (CHR ''/'')
      else if e = CHR ''b'' then Some (CHR 0x08)
      else if e = CHR ''f'' then Some (CHR 0x0C)
      else if e = CHR ''n'' then Some (CHR 0x0A)
      else if e = CHR ''r'' then Some (CHR 0x0D)
      else if e = CHR ''t'' then Some (CHR 0x09)
      else None)"

definition consChar :: "char \<Rightarrow> (string \<times> string) option \<Rightarrow> (string \<times> string) option" where
  "consChar c r = map_option (\<lambda>(s, rest). (c # s, rest)) r"

fun parseString :: "string \<Rightarrow> (string \<times> string) option" where
  \<comment> \<open>The text after an opening quote: the string's value and what follows its closing
      quote. An escape \<open>\uXXXX\<close> above \<open>00FF\<close> is outside the 8-bit strings of the
      embedding; \<open>char_of\<close> keeps its low byte.\<close>
  "parseString [] = None"
| "parseString (c # cs) =
     (if c = CHR 0x22 then Some ([], cs)
      else if c = CHR 0x5C then
        (case cs of
           [] \<Rightarrow> None
         | e # cs' \<Rightarrow>
             if e = CHR ''u'' then
               (case hex4 cs' of
                  None \<Rightarrow> None
                | Some n \<Rightarrow> consChar (char_of n) (parseString (drop 4 cs')))
             else
               (case escapeChar e of
                  None \<Rightarrow> None
                | Some x \<Rightarrow> consChar x (parseString cs')))
      else if code c < 32 then None
      else consChar c (parseString cs))"

definition parseNumber :: "string \<Rightarrow> (rat \<times> string) option" where
  \<comment> \<open>\<open>-?(0|[1-9][0-9]*)(\.[0-9]+)?([eE][+-]?[0-9]+)?\<close> at the start of the text.\<close>
  "parseNumber cs =
     (let neg = (cs \<noteq> [] \<and> hd cs = CHR ''-'');
          r0 = (if neg then tl cs else cs);
          ip = (if r0 \<noteq> [] \<and> hd r0 = CHR ''0'' then ''0'' else takeWhile isDigit r0);
          r1 = drop (length ip) r0
      in if ip = [] then None
         else
           (let dot = (r1 \<noteq> [] \<and> hd r1 = CHR ''.'');
                fp = (if dot then takeWhile isDigit (tl r1) else []);
                r2 = (if dot then dropWhile isDigit (tl r1) else r1)
            in if dot \<and> fp = [] then None
               else
                 (case exponentPart r2 of
                    None \<Rightarrow> None
                  | Some (e, r3) \<Rightarrow>
                      Some ((if neg then - decimalValue ip fp e else decimalValue ip fp e), r3))))"

fun putMember :: "string \<Rightarrow> json \<Rightarrow> (string \<times> json) list \<Rightarrow> (string \<times> json) list" where
  \<comment> \<open>A repeated key keeps its place and takes the later value.\<close>
  "putMember k v [] = [(k, v)]"
| "putMember k v ((k', v') # ms) = (if k = k' then (k, v) # ms else (k', v') # putMember k v ms)"

lemma length_skipWs: "length (skipWs cs) \<le> length cs"
  by (simp add: skipWs_def length_dropWhile_le)

lemma skipWs_Cons_shorter: "skipWs cs = d # r \<Longrightarrow> length r < length cs"
  using length_skipWs [of cs] by simp

lemma parseString_shorter: "parseString cs = Some (s, r) \<Longrightarrow> length r < Suc (length cs)"
proof (induction cs arbitrary: s r rule: parseString.induct)
  case 1
  then show ?case by simp
next
  case (2 c cs)
  then show ?case
    by (fastforce simp: consChar_def split: if_splits list.splits option.splits)
qed

function parseValue :: "string \<Rightarrow> (json \<times> string) option"
  and parseElements :: "string \<Rightarrow> json list \<Rightarrow> (json \<times> string) option"
  and parseMembers :: "string \<Rightarrow> (string \<times> json) list \<Rightarrow> (json \<times> string) option"
where
  "parseValue [] = None"
| "parseValue (c # cs) =
     (if isJsonWs c then parseValue cs
      else if c = CHR ''['' then
        (case skipWs cs of
           [] \<Rightarrow> None
         | d # r \<Rightarrow> if d = CHR '']'' then Some (JArray [], r) else parseElements cs [])
      else if c = CHR ''{'' then
        (case skipWs cs of
           [] \<Rightarrow> None
         | d # r \<Rightarrow> if d = CHR ''}'' then Some (JObject [], r) else parseMembers cs [])
      else if c = CHR 0x22 then map_option (\<lambda>(s, r). (JString s, r)) (parseString cs)
      else if c = CHR ''-'' \<or> isDigit c then
        map_option (\<lambda>(x, r). (JNumber x, r)) (parseNumber (c # cs))
      else if startsWith (c # cs) ''true'' then Some (JBool True, drop 4 (c # cs))
      else if startsWith (c # cs) ''false'' then Some (JBool False, drop 5 (c # cs))
      else if startsWith (c # cs) ''null'' then Some (JNull, drop 4 (c # cs))
      else None)"
| "parseElements cs acc =
     (case parseValue cs of
        None \<Rightarrow> None
      | Some (v, r) \<Rightarrow>
          if length r < length cs then
            (case skipWs r of
               [] \<Rightarrow> None
             | d # r' \<Rightarrow>
                 if d = CHR '','' then parseElements r' (acc @ [v])
                 else if d = CHR '']'' then Some (JArray (acc @ [v]), r')
                 else None)
          else None)"
| "parseMembers cs acc =
     (case skipWs cs of
        [] \<Rightarrow> None
      | q # r0 \<Rightarrow>
          if q = CHR 0x22 then
            (case parseString r0 of
               None \<Rightarrow> None
             | Some (k, r1) \<Rightarrow>
                 (case skipWs r1 of
                    [] \<Rightarrow> None
                  | colon # r2 \<Rightarrow>
                      if colon = CHR '':'' then
                        (case parseValue r2 of
                           None \<Rightarrow> None
                         | Some (v, r3) \<Rightarrow>
                             if length r3 < length r2 then
                               (case skipWs r3 of
                                  [] \<Rightarrow> None
                                | d # r4 \<Rightarrow>
                                    if d = CHR '','' then parseMembers r4 (putMember k v acc)
                                    else if d = CHR ''}'' then Some (JObject (putMember k v acc), r4)
                                    else None)
                             else None)
                      else None))
          else None)"
  by pat_completeness auto
termination
proof (relation "measures
         [\<lambda>x. case x of
                 Inl cs \<Rightarrow> length cs
               | Inr (Inl (cs, acc)) \<Rightarrow> length cs
               | Inr (Inr (cs, acc)) \<Rightarrow> length cs,
          \<lambda>x. case x of Inl cs \<Rightarrow> 0 | Inr y \<Rightarrow> 1]", goal_cases)
  case 1
  then show ?case by simp
next
  case (2 c cs)
  then show ?case by simp
next
  case (3 c cs d r)
  then show ?case by simp
next
  case (4 c cs d r)
  then show ?case by simp
next
  case (5 cs acc)
  then show ?case by simp
next
  case (6 cs acc x v r d r')
  then show ?case using skipWs_Cons_shorter [of r d r'] by simp
next
  case (7 cs acc q r0 x k r1 colon r2)
  then show ?case
    using skipWs_Cons_shorter [of cs q r0] parseString_shorter [of r0 k r1]
      skipWs_Cons_shorter [of r1 colon r2]
    by simp
next
  case (8 cs acc q r0 x k r1 colon r2 y v r3 d r4)
  then show ?case
    using skipWs_Cons_shorter [of cs q r0] parseString_shorter [of r0 k r1]
      skipWs_Cons_shorter [of r1 colon r2] skipWs_Cons_shorter [of r3 d r4]
    by simp
qed

definition jsonParse :: "string \<Rightarrow> json option" where
  \<comment> \<open>\<open>JSON.parse\<close>: one value between white space; \<open>None\<close> is the SyntaxError.\<close>
  "jsonParse s =
     (case parseValue s of
        None \<Rightarrow> None
      | Some (v, r) \<Rightarrow> if skipWs r = [] then Some v else None)"

declare parseValue.simps [simp del] parseElements.simps [simp del] parseMembers.simps [simp del]

section \<open>Number(...)\<close>

definition negate :: "jsnum \<Rightarrow> jsnum" where
  "negate n = (case n of NaN \<Rightarrow> NaN | Num x \<Rightarrow> Num (- x)
                 | PosInfinity \<Rightarrow> NegInfinity | NegInfinity \<Rightarrow> PosInfinity)"

definition strUnsignedDecimalLiteral :: "string \<Rightarrow> jsnum" where
  \<comment> \<open>\<open>Infinity\<close>, \<open>digits . digits? exponent?\<close>, \<open>. digits exponent?\<close> or
      \<open>digits exponent?\<close>, and nothing after it.\<close>
  "strUnsignedDecimalLiteral cs =
     (if cs = ''Infinity'' then PosInfinity
      else
        (let ip = takeWhile isDigit cs;
             r1 = dropWhile isDigit cs;
             dot = (r1 \<noteq> [] \<and> hd r1 = CHR ''.'');
             fp = (if dot then takeWhile isDigit (tl r1) else []);
             r2 = (if dot then dropWhile isDigit (tl r1) else r1)
         in if ip = [] \<and> fp = [] then NaN
            else
              (case exponentPart r2 of
                 None \<Rightarrow> NaN
               | Some (e, r3) \<Rightarrow> if r3 = [] then Num (decimalValue ip fp e) else NaN)))"

definition strDecimalLiteral :: "string \<Rightarrow> jsnum" where
  "strDecimalLiteral cs =
     (case cs of
        [] \<Rightarrow> NaN
      | c # r \<Rightarrow>
          if c = CHR ''+'' then strUnsignedDecimalLiteral r
          else if c = CHR ''-'' then negate (strUnsignedDecimalLiteral r)
          else strUnsignedDecimalLiteral (c # r))"

definition radixDigits :: "nat \<Rightarrow> string \<Rightarrow> nat option" where
  \<comment> \<open>One or more digits of the radix, read as a number.\<close>
  "radixDigits b ds =
     (if ds \<noteq> [] \<and> list_all (\<lambda>c. case hexVal c of None \<Rightarrow> False | Some d \<Rightarrow> d < b) ds
      then Some (foldl (\<lambda>a c. b * a + the (hexVal c)) 0 ds)
      else None)"

definition nonDecimalIntegerLiteral :: "string \<Rightarrow> nat option" where
  \<comment> \<open>\<open>0x\<close>, \<open>0o\<close> and \<open>0b\<close> literals; they take no sign.\<close>
  "nonDecimalIntegerLiteral cs =
     (case cs of
        z # p # ds \<Rightarrow>
          if z \<noteq> CHR ''0'' then None
          else if p = CHR ''x'' \<or> p = CHR ''X'' then radixDigits 16 ds
          else if p = CHR ''o'' \<or> p = CHR ''O'' then radixDigits 8 ds
          else if p = CHR ''b'' \<or> p = CHR ''B'' then radixDigits 2 ds
          else None
      | _ \<Rightarrow> None)"

definition stringToNumber :: "string \<Rightarrow> jsnum" where
  \<comment> \<open>White space around the literal is dropped; the empty text is zero.\<close>
  "stringToNumber s =
     (let t = trim s
      in if t = [] then Num 0
         else case nonDecimalIntegerLiteral t of
                Some n \<Rightarrow> Num (of_nat n)
              | None \<Rightarrow> strDecimalLiteral t)"

definition toNumber :: "string option \<Rightarrow> jsnum" where
  \<comment> \<open>\<open>Number(x)\<close> for a text or \<open>undefined\<close>.\<close>
  "toNumber raw = (case raw of None \<Rightarrow> NaN | Some s \<Rightarrow> stringToNumber s)"

definition truthyNum :: "jsnum \<Rightarrow> bool" where
  "truthyNum n = (n \<noteq> NaN \<and> n \<noteq> Num 0)"

definition coerceCount :: "string option \<Rightarrow> jsnum" where
  \<comment> \<open>\<open>Number(raw) || 0\<close>\<close>
  "coerceCount raw = (if truthyNum (toNumber raw) then toNumber raw else Num 0)"

section \<open>Dates\<close>

text \<open>
  \<open>new Date(text)\<close> is read by the date-time format every engine has to accept,
  \<open>YYYY-MM-DDTHH:mm:ss.sssZ\<close> with its shorter forms and its six-digit years. What an
  engine accepts beyond that format is its own business; here every other text is an
  invalid date. The host's time zone and its regional formatting data are not part of the
  program: the rendering of a valid date is a parameter of the loader.
\<close>

record date_time =
  year :: int
  month :: nat
  day :: nat
  hour :: nat
  minute :: nat
  second :: nat
  millis :: nat
  zone :: "int option"

datatype jsdate = InvalidDate | ValidDate date_time

definition takeDigits :: "nat \<Rightarrow> string \<Rightarrow> (nat \<times> string) option" where
  "takeDigits n cs =
     (if n \<le> length cs \<and> list_all isDigit (take n cs)
      then Some (digitsVal (take n cs), drop n cs) else None)"

definition expect :: "char \<Rightarrow> string \<Rightarrow> string option" where
  "expect c cs = (case cs of [] \<Rightarrow> None | d # r \<Rightarrow> if d = c then Some r else None)"

definition parseYear :: "string \<Rightarrow> (int \<times> string) option" where
  "parseYear cs =
     (case cs of
        [] \<Rightarrow> None
      | c # r \<Rightarrow>
          if c = CHR ''+'' then map_option (\<lambda>(y, r'). (int y, r')) (takeDigits 6 r)
          else if c = CHR ''-'' then
            (case takeDigits 6 r of
               None \<Rightarrow> None
             | Some (y, r') \<Rightarrow> if y = 0 then None else Some (- int y, r'))
          else map_option (\<lambda>(y, r'). (int y, r')) (takeDigits 4 (c # r)))"

definition parseZone :: "string \<Rightarrow> int option option" where
  \<comment> \<open>Nothing (local time), \<open>Z\<close>, or a signed \<open>HH:mm\<close>, in minutes east of UTC.\<close>
  "parseZone cs =
     (case cs of
        [] \<Rightarrow> Some None
      | c # r \<Rightarrow>
          if c = CHR ''Z'' then (if r = [] then Some (Some 0) else None)
          else if c = CHR ''+'' \<or> c = CHR ''-'' then
            do {
              (h, r1) \<leftarrow> takeDigits 2 r;
              r2 \<leftarrow> expect (CHR '':'') r1;
              (m, r3) \<leftarrow> takeDigits 2 r2;
              if r3 = [] \<and> h < 24 \<and> m < 60
              then Some (Some ((if c = CHR ''-'' then - 1 else 1) * int (60 * h + m)))
              else None
            }
          else None)"

definition parseTime :: "string \<Rightarrow> (nat \<times> nat \<times> nat \<times> nat \<times> int option) option" where
  \<comment> \<open>\<open>HH:mm\<close>, \<open>HH:mm:ss\<close> or \<open>HH:mm:ss.sss\<close>, then the zone.\<close>
  "parseTime cs =
     do {
       (h, r1) \<leftarrow> takeDigits 2 cs;
       r2 \<leftarrow> expect (CHR '':'') r1;
       (m, r3) \<leftarrow> takeDigits 2 r2;
       (s, r4) \<leftarrow> (if r3 \<noteq> [] \<and> hd r3 = CHR '':'' then takeDigits 2 (tl r3) else Some (0, r3));
       (f, r5) \<leftarrow> (if r3 \<noteq> [] \<and> hd r3 = CHR '':'' \<and> r4 \<noteq> [] \<and> hd r4 = CHR ''.''
                   then takeDigits 3 (tl r4) else Some (0, r4));
       z \<leftarrow> parseZone r5;
       if (h < 24 \<or> (h = 24 \<and> m = 0 \<and> s = 0 \<and> f = 0)) \<and> m < 60 \<and> s < 60
       then Some (h, m, s, f, z) else None
     }"

definition parseDate :: "string \<Rightarrow> date_time option" where
  "parseDate cs =
     do {
       (y, r1) \<leftarrow> parseYear cs;
       (mo, r2) \<leftarrow> (if r1 \<noteq> [] \<and> hd r1 = CHR ''-'' then takeDigits 2 (tl r1) else Some (1, r1));
       (d, r3) \<leftarrow> (if r1 \<noteq> [] \<and> hd r1 = CHR ''-'' \<and> r2 \<noteq> [] \<and> hd r2 = CHR ''-''
                   then takeDigits 2 (tl r2) else Some (1, r2));
       (h, mi, s, f, z) \<leftarrow> (if r3 = [] then Some (0, 0, 0, 0, Some 0)
                            else do { r4 \<leftarrow> expect (CHR ''T'') r3; parseTime r4 });
       if 1 \<le> mo \<and> mo \<le> 12 \<and> 1 \<le> d \<and> d \<le> 31
       then Some \<lparr>year = y, month = mo, day = d, hour = h, minute = mi, second = s,
                   millis = f, zone = z\<rparr>
       else None
     }"

definition newDate :: "string option \<Rightarrow> jsdate" where
  \<comment> \<open>\<open>new Date(x)\<close> for a text or \<open>undefined\<close>.\<close>
  "newDate x =
     (case x of
        None \<Rightarrow> InvalidDate
      | Some s \<Rightarrow> (case parseDate s of None \<Rightarrow> InvalidDate | Some d \<Rightarrow> ValidDate d))"

definition toLocaleDateString :: "(date_time \<Rightarrow> string) \<Rightarrow> jsdate \<Rightarrow> string" where
  \<comment> \<open>An invalid date prints as the text \<open>Invalid Date\<close>; nothing is thrown.\<close>
  "toLocaleDateString render d =
     (case d of InvalidDate \<Rightarrow> ''Invalid Date'' | ValidDate t \<Rightarrow> render t)"




section \<open>Posts and the loader\<close>

text \<open>
  A row of the parsed file has a text for each column that the row fills, and nothing for
  the others. The interface of a post declares its hashtags as \<open>string[]\<close>, but
  \<open>JSON.parse\<close> returns a value of any shape and nothing checks it: the field holds a
  JSON value.
  \<^verbatim>\<open>
  const tryParseJSON = (str: string | undefined): string[] => {
    if (!str) return [];
    try {
      return JSON.parse(str.replace(/'/g, '"'));
    } catch {
      return [];
    }
  };

  const processedData: InstagramPost[] = results.data
    .filter(post => post.date_posted) // Filter out invalid entries
    .map(post => ({
      ...post,
      date_posted: new Date(post.date_posted).toLocaleDateString('de-DE', {...}),
      hashtags: tryParseJSON(post.hashtags) || [],
      clean_description: cleanDescription(post.description || ''),
      likes: Number(post.likes) || 0,
      num_comments: Number(post.num_comments) || 0
    }));
  \<close>
\<close>

record RawInstagramPost =
  raw_date_posted :: "string option"
  raw_description :: "string option"
  raw_hashtags :: "string option"
  raw_clean_description :: "string option"
  raw_url :: "string option"
  raw_photos :: "string option"
  raw_likes :: "string option"
  raw_num_comments :: "string option"

record InstagramPost =
  date_posted :: string
  description :: "string option"
  hashtags :: json
  clean_description :: string
  url :: "string option"
  photos :: "string option"
  likes :: jsnum
  num_comments :: jsnum


definition truthy :: "json \<Rightarrow> bool" where
  "truthy v =
     (case v of
        JNull \<Rightarrow> False
      | JBool b \<Rightarrow> b
      | JNumber x \<Rightarrow> x \<noteq> 0
      | JString s \<Rightarrow> s \<noteq> []
      | JArray _ \<Rightarrow> True
      | JObject _ \<Rightarrow> True)"

definition tryParseJSON :: "string option \<Rightarrow> json" where
  "tryParseJSON str =
     (case str of
        None \<Rightarrow> JArray []
      | Some s \<Rightarrow>
          if s = [] then JArray []
          else (case jsonParse (replaceAll (CHR 0x27) (CHR 0x22) s) of
                  Some v \<Rightarrow> v
                | None \<Rightarrow> JArray []))"

definition processRow :: "(date_time \<Rightarrow> string) \<Rightarrow> RawInstagramPost \<Rightarrow> InstagramPost" where
  "processRow render post =
     \<lparr>date_posted = toLocaleDateString render (newDate (raw_date_posted post)),
      description = raw_description post,
      hashtags = (let h = tryParseJSON (raw_hashtags post) in if truthy h then h else JArray []),
      clean_description =
        cleanDescription (case raw_description post of None \<Rightarrow> [] | Some d \<Rightarrow> d),
      url = raw_url post,
      photos = raw_photos post,
      likes = coerceCount (raw_likes post),
      num_comments = coerceCount (raw_num_comments post)\<rparr>"


section \<open>The page state, loading and searching\<close>

text \<open>
  \<^verbatim>\<open>
  complete: (results) => { ...; setPosts(processedData); setSearchResults(processedData); },
  error: (error: Error) => { console.error('Error parsing CSV:', error); }

  const searchPosts = useCallback(() => {
    if (!searchTerm) {
      setSearchResults(posts);
      return;
    }
    const results = posts.filter(post => {
      if (isHashtagSearch) {
        return post.hashtags.some(tag =>
          tag.toLowerCase().includes(searchTerm.toLowerCase().replace('#', ''))
        );
      } else {
        return post.clean_description.toLowerCase().includes(searchTerm.toLowerCase());
      }
    });
    setSearchResults(results);
  }, [posts, searchTerm, isHashtagSearch]);
  \<close>
  A value without the method that is called on it (\<open>some\<close> on hashtags that are no
  array, \<open>toLowerCase\<close> on a tag that is no string) raises a TypeError, and the search
  sets no result.
\<close>

record ui_state =
  posts :: "InstagramPost list"
  searchTerm :: string
  isHashtagSearch :: bool
  searchResults :: "InstagramPost list"



datatype js_error = TypeError

definition tagIncludes :: "string \<Rightarrow> json \<Rightarrow> js_error + bool" where
  \<comment> \<open>\<open>tag.toLowerCase().includes(needle)\<close>: only a string has \<open>toLowerCase\<close>.\<close>
  "tagIncludes needle tag =
     (case tag of
        JString t \<Rightarrow> Inr (includesStr (toLowerCase t) needle)
      | _ \<Rightarrow> Inl TypeError)"

fun someTag :: "string \<Rightarrow> json list \<Rightarrow> js_error + bool" where
  \<comment> \<open>\<open>tags.some(...)\<close> stops at the first tag that matches.\<close>
  "someTag needle [] = Inr False"
| "someTag needle (tag # tags) =
     (case tagIncludes needle tag of
        Inl e \<Rightarrow> Inl e
      | Inr b \<Rightarrow> if b then Inr True else someTag needle tags)"

definition postMatches :: "string \<Rightarrow> bool \<Rightarrow> InstagramPost \<Rightarrow> js_error + bool" where
  "postMatches term tagMode post =
     (if tagMode then
        (case hashtags post of
           JArray tags \<Rightarrow> someTag (removeFirst (CHR ''#'') (toLowerCase term)) tags
         | _ \<Rightarrow> Inl TypeError)
      else Inr (includesStr (toLowerCase (clean_description post)) (toLowerCase term)))"

fun filterPosts :: "(InstagramPost \<Rightarrow> js_error + bool) \<Rightarrow> InstagramPost list \<Rightarrow> js_error + InstagramPost list" where
  "filterPosts f [] = Inr []"
| "filterPosts f (p # ps) =
     (case f p of
        Inl e \<Rightarrow> Inl e
      | Inr b \<Rightarrow>
          (case filterPosts f ps of
             Inl e \<Rightarrow> Inl e
           | Inr rs \<Rightarrow> Inr (if b then p # rs else rs)))"

definition searchPosts :: "ui_state \<Rightarrow> js_error + ui_state" where
  "searchPosts st =
     (if searchTerm st = [] then Inr (st\<lparr>searchResults := posts st\<rparr>)
      else case filterPosts (postMatches (searchTerm st) (isHashtagSearch st)) (posts st) of
             Inl e \<Rightarrow> Inl e
           | Inr results \<Rightarrow> Inr (st\<lparr>searchResults := results\<rparr>))"

definition search :: "InstagramPost list \<Rightarrow> string \<Rightarrow> bool \<Rightarrow> js_error + InstagramPost list" where
  \<comment> \<open>The result list \<open>searchPosts\<close> leaves for a dataset, a query and a mode
      (\<open>True\<close> for the tag mode).\<close>
  "search dataset query tagMode =
     (case searchPosts \<lparr>posts = dataset, searchTerm = query, isHashtagSearch = tagMode,
                        searchResults = []\<rparr> of
        Inl e \<Rightarrow> Inl e
      | Inr st \<Rightarrow> Inr (searchResults st))"

section \<open>The specification's notions\<close>

definition hashtagMatchAt :: "string \<Rightarrow> nat \<Rightarrow> bool" where
  \<comment> \<open>At index \<open>i\<close> stands a white space character, then \<open>#\<close>, then a word character.\<close>
  "hashtagMatchAt text i =
     (i + 2 < length text \<and> isWhiteSpace (text ! i) \<and> text ! (i + 1) = CHR ''#''
      \<and> isWordChar (text ! (i + 2)))"

definition stripLeadingHash :: "string \<Rightarrow> string" where
  \<comment> \<open>The specification's reading of the tag query: a leading \<open>#\<close> is stripped.\<close>
  "stripLeadingHash q = (case q of [] \<Rightarrow> [] | c # r \<Rightarrow> if c = CHR ''#'' then r else c # r)"

definition isJString :: "json \<Rightarrow> bool" where
  "isJString v = (case v of JString _ \<Rightarrow> True | _ \<Rightarrow> False)"


definition stringArray :: "json \<Rightarrow> bool" where
  \<comment> \<open>A sequence of strings, as the type \<open>string[]\<close> of \<open>hashtags\<close> says.\<close>
  "stringArray v = (case v of JArray vs \<Rightarrow> list_all isJString vs | _ \<Rightarrow> False)"

definition tagTexts :: "json \<Rightarrow> string list" where
  "tagTexts v =
     (case v of
        JArray vs \<Rightarrow> concat (map (\<lambda>t. case t of JString s \<Rightarrow> [s] | _ \<Rightarrow> []) vs)
      | _ \<Rightarrow> [])"



definition samplePost :: InstagramPost where
  "samplePost =
     \<lparr>date_posted = ''01.01.2024, 10:00'',
      description = Some ''Sunny day #sun #fun'',
      hashtags = JArray [JString ''Travel'', JString ''ab''],
      clean_description = ''Sunny day'',
      url = None,
      photos = None,
      likes = Num 5,
      num_comments = Num 0\<rparr>"





definition specTagSearch :: "InstagramPost list \<Rightarrow> string \<Rightarrow> InstagramPost list" where
  \<comment> \<open>The specification's tag search: some tag contains the query without its leading
      \<open>#\<close>.\<close>
  "specTagSearch dataset query =
     filter (\<lambda>p. list_ex (\<lambda>t. includesStr (toLowerCase t) (stripLeadingHash (toLowerCase query)))
                          (tagTexts (hashtags p)))
       dataset"







section \<open>The parser consumes its input\<close>

text \<open>
  The tests \<open>length r < length cs\<close> in \<open>parseElements\<close> and \<open>parseMembers\<close> carry the
  termination argument. They never fail: a value that parses leaves less text than it was
  given, so both functions satisfy their equations without the tests.
\<close>

lemma exponentPart_le: "exponentPart cs = Some (e, r) \<Longrightarrow> length r \<le> length cs"
proof (cases cs)
  case Nil
  then show "exponentPart cs = Some (e, r) \<Longrightarrow> length r \<le> length cs"
    by (simp add: exponentPart_def)
next
  case (Cons c t)
  assume a: "exponentPart cs = Some (e, r)"
  show "length r \<le> length cs"
  proof (cases "c = CHR ''e'' \<or> c = CHR ''E''")
    case False
    with a Cons show ?thesis by (auto simp: exponentPart_def)
  next
    case True
    define t' where "t' = (if t \<noteq> [] \<and> (hd t = CHR ''-'' \<or> hd t = CHR ''+'') then tl t else t)"
    have "length t' \<le> length t" by (simp add: t'_def)
    moreover have "r = dropWhile isDigit t'"
      using a Cons True by (auto simp: exponentPart_def Let_def t'_def split: if_splits)
    moreover have "length (dropWhile isDigit t') \<le> length t'" by (rule length_dropWhile_le)
    ultimately show ?thesis using Cons by simp
  qed
qed

lemma parseNumber_shorter: "parseNumber cs = Some (x, r) \<Longrightarrow> length r < length cs"
proof -
  assume a: "parseNumber cs = Some (x, r)"
  define r0 where "r0 = (if cs \<noteq> [] \<and> hd cs = CHR ''-'' then tl cs else cs)"
  define ip where "ip = (if r0 \<noteq> [] \<and> hd r0 = CHR ''0'' then ''0'' else takeWhile isDigit r0)"
  define r1 where "r1 = drop (length ip) r0"
  define r2 where "r2 = (if r1 \<noteq> [] \<and> hd r1 = CHR ''.'' then dropWhile isDigit (tl r1) else r1)"
  from a have ip: "ip \<noteq> []"
    by (auto simp: parseNumber_def Let_def r0_def ip_def split: if_splits)
  from a obtain e where e: "exponentPart r2 = Some (e, r)"
    unfolding parseNumber_def Let_def r0_def [symmetric] ip_def [symmetric] r1_def [symmetric]
    by (auto simp: r2_def split: if_splits option.splits)
  have "length ip \<le> length r0"
    by (auto simp: ip_def length_takeWhile_le intro: Suc_leI)
  with ip have "length r1 < length r0" by (cases ip) (simp_all add: r1_def)
  moreover have "length r2 \<le> length r1"
    by (auto simp: r2_def intro: order_trans [OF length_dropWhile_le])
  moreover have "length r0 \<le> length cs" by (simp add: r0_def)
  moreover have "length r \<le> length r2" using e by (rule exponentPart_le)
  ultimately show ?thesis by simp
qed

lemma startsWith_length: "startsWith s p \<Longrightarrow> length p \<le> length s"
  by (metis startsWith_def length_take min.cobounded2 min.commute)

lemma parse_consumes:
  shows "parseValue cs = Some (v, r) \<Longrightarrow> length r < length cs"
    and "parseElements cs1 acc1 = Some (v1, r1) \<Longrightarrow> length r1 < length cs1"
    and "parseMembers cs2 acc2 = Some (v2, r2) \<Longrightarrow> length r2 < length cs2"
proof (induction cs and cs1 acc1 and cs2 acc2 arbitrary: v r and v1 r1 and v2 r2
    rule: parseValue_parseElements_parseMembers.induct)
  case 1
  then show ?case by (simp add: parseValue.simps)
next
  case (2 c cs)
  show ?case
  proof (cases "isJsonWs c")
    case True
    with "2.prems" have "parseValue cs = Some (v, r)" by (simp add: parseValue.simps)
    with "2.IH"(1) True have "length r < length cs" by blast
    then show ?thesis by simp
  next
    case ws: False
    show ?thesis
    proof (cases "c = CHR ''[''")
      case True
      show ?thesis
      proof (cases "skipWs cs")
        case Nil
        with "2.prems" ws True show ?thesis by (simp add: parseValue.simps)
      next
        case (Cons d r0)
        show ?thesis
        proof (cases "d = CHR '']''")
          case t: True
          with "2.prems" ws True Cons have "r = r0" by (simp add: parseValue.simps)
          with skipWs_Cons_shorter [OF Cons] show ?thesis by simp
        next
          case f: False
          with "2.prems" ws True Cons have "parseElements cs [] = Some (v, r)"
            by (simp add: parseValue.simps)
          with "2.IH"(2) [OF ws True Cons f] show ?thesis by simp
        qed
      qed
    next
      case nb: False
      show ?thesis
      proof (cases "c = CHR ''{''")
        case True
        show ?thesis
        proof (cases "skipWs cs")
          case Nil
          with "2.prems" ws nb True show ?thesis by (simp add: parseValue.simps)
        next
          case (Cons d r0)
          show ?thesis
          proof (cases "d = CHR ''}''")
            case t: True
            with "2.prems" ws nb True Cons have "r = r0" by (simp add: parseValue.simps)
            with skipWs_Cons_shorter [OF Cons] show ?thesis by simp
          next
            case f: False
            with "2.prems" ws nb True Cons have "parseMembers cs [] = Some (v, r)"
              by (simp add: parseValue.simps)
            with "2.IH"(3) [OF ws nb True Cons f] show ?thesis by simp
          qed
        qed
      next
        case no: False
        from "2.prems" ws nb no show ?thesis
          by (auto simp: parseValue.simps split: if_splits
              dest: parseString_shorter parseNumber_shorter startsWith_length)
      qed
    qed
  qed
next
  case (3 cs acc)
  from "3.prems" obtain w r0 where pv: "parseValue cs = Some (w, r0)"
    by (subst (asm) parseElements.simps) (auto split: option.splits)
  with "3.prems" have g: "length r0 < length cs"
    by (subst (asm) parseElements.simps) (auto split: if_splits)
  from "3.prems" pv g obtain d r' where sk: "skipWs r0 = d # r'"
    by (subst (asm) parseElements.simps) (auto split: list.splits)
  have l: "length r' < length r0" by (rule skipWs_Cons_shorter [OF sk])
  show ?case
  proof (cases "d = CHR '',''")
    case True
    with "3.prems" pv g sk have "parseElements r' (acc @ [w]) = Some (v1, r1)"
      by (subst (asm) parseElements.simps) simp
    then have "length r1 < length r'"
      using "3.IH"(2) [OF pv refl g sk True] by blast
    with l g show ?thesis by simp
  next
    case False
    with "3.prems" pv g sk have "r1 = r'"
      by (subst (asm) parseElements.simps) (auto split: if_splits)
    with l g show ?thesis by simp
  qed
next
  case (4 cs acc)
  from "4.prems" obtain q r0 where sk0: "skipWs cs = q # r0" and q: "q = CHR 0x22"
    by (subst (asm) parseMembers.simps) (auto split: list.splits if_splits)
  from "4.prems" sk0 q obtain k ra where ps: "parseString r0 = Some (k, ra)"
    by (subst (asm) parseMembers.simps) (auto split: option.splits)
  from "4.prems" sk0 q ps obtain colon rb where sk1: "skipWs ra = colon # rb" and co: "colon = CHR '':''"
    by (subst (asm) parseMembers.simps) (auto split: list.splits if_splits)
  from "4.prems" sk0 q ps sk1 co obtain w rc where pv: "parseValue rb = Some (w, rc)"
    by (subst (asm) parseMembers.simps) (auto split: option.splits)
  from "4.prems" sk0 q ps sk1 co pv have g: "length rc < length rb"
    by (subst (asm) parseMembers.simps) (auto split: if_splits)
  from "4.prems" sk0 q ps sk1 co pv g obtain d rd where sk2: "skipWs rc = d # rd"
    by (subst (asm) parseMembers.simps) (auto split: list.splits)
  have l: "length rd < length cs"
    using skipWs_Cons_shorter [OF sk0] parseString_shorter [OF ps] skipWs_Cons_shorter [OF sk1] g
      skipWs_Cons_shorter [OF sk2]
    by simp
  show ?case
  proof (cases "d = CHR '',''")
    case True
    with "4.prems" sk0 q ps sk1 co pv g sk2
    have "parseMembers rd (putMember k w acc) = Some (v2, r2)"
      by (subst (asm) parseMembers.simps) simp
    then have "length r2 < length rd"
      using "4.IH"(2) [OF sk0 q ps refl sk1 co pv refl g sk2 True] by blast
    with l show ?thesis by simp
  next
    case False
    with "4.prems" sk0 q ps sk1 co pv g sk2 have "r2 = rd"
      by (subst (asm) parseMembers.simps) (auto split: if_splits)
    with l show ?thesis by simp
  qed
qed

lemma parseElements_unguarded:
  "parseElements cs acc =
     (case parseValue cs of
        None \<Rightarrow> None
      | Some (v, r) \<Rightarrow>
          (case skipWs r of
             [] \<Rightarrow> None
           | d # r' \<Rightarrow>
               if d = CHR '','' then parseElements r' (acc @ [v])
               else if d = CHR '']'' then Some (JArray (acc @ [v]), r')
               else None))"
proof (cases "parseValue cs")
  case None
  then show ?thesis by (subst parseElements.simps) simp
next
  case (Some a)
  obtain v r where a: "a = (v, r)" by (cases a)
  with Some have "length r < length cs" using parse_consumes(1) by blast
  with Some a show ?thesis by (subst parseElements.simps) simp
qed

section \<open>Substrings and the first hashtag\<close>

lemma startsWith_iff: "startsWith s p \<longleftrightarrow> (\<exists>suf. s = p @ suf)"
  unfolding startsWith_def
  by (metis append_eq_conv_conj append_take_drop_id)

lemma includesStr_iff: "includesStr hay needle \<longleftrightarrow> (\<exists>pre suf. hay = pre @ needle @ suf)"
proof (induction hay)
  case Nil
  then show ?case by auto
next
  case (Cons c cs)
  show ?case
  proof
    assume "includesStr (c # cs) needle"
    then consider "startsWith (c # cs) needle" | "includesStr cs needle" by auto
    then show "\<exists>pre suf. c # cs = pre @ needle @ suf"
    proof cases
      case 1
      then obtain suf where "c # cs = needle @ suf" by (auto simp: startsWith_iff)
      then have "c # cs = [] @ needle @ suf" by simp
      then show ?thesis by blast
    next
      case 2
      then obtain pre suf where "cs = pre @ needle @ suf" using Cons.IH by auto
      then have "c # cs = (c # pre) @ needle @ suf" by simp
      then show ?thesis by blast
    qed
  next
    assume "\<exists>pre suf. c # cs = pre @ needle @ suf"
    then obtain pre suf where eq: "c # cs = pre @ needle @ suf" by blast
    show "includesStr (c # cs) needle"
    proof (cases pre)
      case Nil
      with eq have "startsWith (c # cs) needle" by (auto simp: startsWith_iff)
      then show ?thesis by simp
    next
      case (Cons d pre')
      with eq have "cs = pre' @ needle @ suf" by simp
      then have "includesStr cs needle" using Cons.IH by blast
      then show ?thesis by simp
    qed
  qed
qed

lemma hashtagHere_iff: "hashtagHere s \<longleftrightarrow> hashtagMatchAt s 0"
  by (cases s rule: hashtagHere.cases) (simp_all add: hashtagMatchAt_def)

lemma hashtagMatchAt_Suc: "hashtagMatchAt (c # cs) (Suc i) = hashtagMatchAt cs i"
  by (simp add: hashtagMatchAt_def)

lemma searchHashtag_Some_iff:
  "searchHashtag s = Some i \<longleftrightarrow> hashtagMatchAt s i \<and> (\<forall>j<i. \<not> hashtagMatchAt s j)"
proof (induction s arbitrary: i)
  case Nil
  then show ?case by (simp add: hashtagMatchAt_def)
next
  case (Cons c cs)
  show ?case
  proof (cases "hashtagHere (c # cs)")
    case True
    then have m0: "hashtagMatchAt (c # cs) 0" using hashtagHere_iff by blast
    have "searchHashtag (c # cs) = Some 0" using True by simp
    moreover have "hashtagMatchAt (c # cs) i \<and> (\<forall>j<i. \<not> hashtagMatchAt (c # cs) j) \<longleftrightarrow> i = 0"
      using m0 by (cases i) auto
    ultimately show ?thesis by auto
  next
    case False
    then have m0: "\<not> hashtagMatchAt (c # cs) 0" using hashtagHere_iff by blast
    show ?thesis
    proof (cases i)
      case 0
      have "searchHashtag (c # cs) \<noteq> Some 0" using False by auto
      then show ?thesis using m0 0 by simp
    next
      case (Suc k)
      have "searchHashtag (c # cs) = Some (Suc k) \<longleftrightarrow> searchHashtag cs = Some k"
        using False by auto
      also have "\<dots> \<longleftrightarrow> hashtagMatchAt cs k \<and> (\<forall>j<k. \<not> hashtagMatchAt cs j)"
        by (rule Cons.IH)
      also have "\<dots> \<longleftrightarrow> hashtagMatchAt (c # cs) (Suc k) \<and> (\<forall>j<Suc k. \<not> hashtagMatchAt (c # cs) j)"
        using m0 by (auto simp: hashtagMatchAt_Suc less_Suc_eq_0_disj)
      finally show ?thesis using Suc by simp
    qed
  qed
qed

lemma searchHashtag_None_iff: "searchHashtag s = None \<longleftrightarrow> (\<forall>j. \<not> hashtagMatchAt s j)"
proof
  assume n: "searchHashtag s = None"
  show "\<forall>j. \<not> hashtagMatchAt s j"
  proof (rule allI, rule notI)
    fix j assume "hashtagMatchAt s j"
    then obtain i where "hashtagMatchAt s i" "\<forall>k<i. \<not> hashtagMatchAt s k"
      by (metis (mono_tags) exists_least_iff)
    then have "searchHashtag s = Some i" by (simp add: searchHashtag_Some_iff)
    with n show False by simp
  qed
next
  assume "\<forall>j. \<not> hashtagMatchAt s j"
  then show "searchHashtag s = None"
    by (cases "searchHashtag s") (auto simp: searchHashtag_Some_iff)
qed

section \<open>Description cleanup: the claim\<close>

text \<open>
  Claim C6. \<open>cleanDescription\<close> maps the empty text to the empty text (and the loader
  passes the empty text for an absent description). Otherwise, where \<open>i\<close> is the first
  index at which a white space character is followed by \<open>#\<close> and a word character, the
  result is the text before \<open>i\<close>, trimmed; where there is no such index, it is the whole
  text, trimmed. The three examples of the specification are part of the statement.
\<close>

theorem cleanDescription_spec:
  "cleanDescription [] = [] \<and>
   (hashtagMatchAt text i \<and> (\<forall>j<i. \<not> hashtagMatchAt text j)
      \<longrightarrow> cleanDescription text = trim (take i text)) \<and>
   ((\<forall>j. \<not> hashtagMatchAt text j) \<longrightarrow> cleanDescription text = trim text) \<and>
   cleanDescription ''Great day! #sun #fun'' = ''Great day!'' \<and>
   cleanDescription ''No tags here'' = ''No tags here'' \<and>
   clean_description (processRow render (row\<lparr>raw_description := None\<rparr>)) = []"
proof -
  have a: "cleanDescription [] = []" by (simp add: cleanDescription_def)
  have b: "cleanDescription text = trim (take i text)"
    if "hashtagMatchAt text i" "\<forall>j<i. \<not> hashtagMatchAt text j"
  proof -
    have "searchHashtag text = Some i" using that by (simp add: searchHashtag_Some_iff)
    moreover have "text \<noteq> []" using that(1) by (auto simp: hashtagMatchAt_def)
    ultimately show ?thesis by (simp add: cleanDescription_def)
  qed
  have c: "cleanDescription text = trim text" if "\<forall>j. \<not> hashtagMatchAt text j"
  proof -
    have "searchHashtag text = None" using that by (simp add: searchHashtag_None_iff)
    then show ?thesis by (simp add: cleanDescription_def trim_def)
  qed
  have d: "cleanDescription ''Great day! #sun #fun'' = ''Great day!''" by code_simp
  have e: "cleanDescription ''No tags here'' = ''No tags here''" by code_simp
  have f: "clean_description (processRow render (row\<lparr>raw_description := None\<rparr>)) = []"
    by (simp add: processRow_def cleanDescription_def)
  from a b c d e f show ?thesis by blast
qed

theorem cleanDescription_spec_witness:
  "hashtagMatchAt ''Great day! #sun #fun'' 10 \<and>
   cleanDescription ''Great day! #sun #fun'' = trim (take 10 ''Great day! #sun #fun'') \<and>
   searchHashtag ''No tags here'' = None \<and>
   cleanDescription ''No tags here'' = trim ''No tags here''"
proof -
  have s: "searchHashtag ''Great day! #sun #fun'' = Some 10" by code_simp
  have n: "searchHashtag ''No tags here'' = None" by code_simp
  have h1: "hashtagMatchAt ''Great day! #sun #fun'' 10 \<and>
            (\<forall>j<10. \<not> hashtagMatchAt ''Great day! #sun #fun'' j)"
    by (rule iffD1 [OF searchHashtag_Some_iff s])
  have h2: "\<forall>j. \<not> hashtagMatchAt ''No tags here'' j"
    by (rule iffD1 [OF searchHashtag_None_iff n])
  show ?thesis
    using h1 h2 n cleanDescription_spec [of "''Great day! #sun #fun''" 10]
      cleanDescription_spec [of "''No tags here''"]
    by blast
qed

section \<open>Searching\<close>

lemma filterPosts_pure:
  "(\<And>p. p \<in> set ps \<Longrightarrow> f p = Inr (P p)) \<Longrightarrow> filterPosts f ps = Inr (filter P ps)"
  by (induction ps) auto

lemma someTag_strings:
  "someTag needle (map JString ts) = Inr (\<exists>t\<in>set ts. includesStr (toLowerCase t) needle)"
  by (induction ts) (auto simp: tagIncludes_def)

lemma stringArray_tagTexts: "stringArray v \<Longrightarrow> v = JArray (map JString (tagTexts v))"
proof (cases v)
  case (JArray vs)
  assume "stringArray v"
  with JArray have "list_all isJString vs" by (simp add: stringArray_def)
  then have "vs = map JString (concat (map (\<lambda>t. case t of JString s \<Rightarrow> [s] | _ \<Rightarrow> []) vs))"
    by (induction vs) (auto simp: isJString_def split: json.splits)
  with JArray show ?thesis by (simp add: tagTexts_def)
qed (simp_all add: stringArray_def)

lemma search_unfold:
  "search dataset query tagMode =
     (if query = [] then Inr dataset else filterPosts (postMatches query tagMode) dataset)"
  by (simp add: search_def searchPosts_def split: sum.splits)

text \<open>
  Claim C5. In text mode the search keeps exactly the posts whose clean description,
  lower-cased, contains the lower-cased query as a substring, and keeps them in the order
  of the dataset: the result is the dataset filtered by that test. The query \<open>SUN\<close>
  finds a post whose clean description is \<open>Sunny day\<close>.
\<close>

theorem text_search:
  "search dataset query False =
     Inr (filter (\<lambda>p. \<exists>pre suf. toLowerCase (clean_description p) = pre @ toLowerCase query @ suf)
            dataset) \<and>
   search [samplePost] ''SUN'' False = Inr [samplePost]"
proof -
  let ?P = "\<lambda>p. \<exists>pre suf. toLowerCase (clean_description p) = pre @ toLowerCase query @ suf"
  have pm: "postMatches query False p = Inr (?P p)" for p
    by (simp add: postMatches_def includesStr_iff)
  have a: "search dataset query False = Inr (filter ?P dataset)"
  proof (cases "query = []")
    case True
    have "?P p" for p
    proof -
      have "toLowerCase (clean_description p) = [] @ toLowerCase query @ toLowerCase (clean_description p)"
        using True by (simp add: toLowerCase_def)
      then show ?thesis by blast
    qed
    then have "\<forall>p\<in>set dataset. ?P p" by blast
    then have "filter ?P dataset = dataset" by (rule filter_True)
    then show ?thesis using True by (simp add: search_unfold)
  next
    case False
    then show ?thesis using filterPosts_pure [of dataset "postMatches query False" ?P] pm
      by (simp add: search_unfold)
  qed
  have b: "search [samplePost] ''SUN'' False = Inr [samplePost]"
    by code_simp
  from a b show ?thesis by blast
qed

text \<open>
  Claim C4, as stated: every blank query, also one of white space only, returns the whole
  dataset. The guard of \<open>searchPosts\<close> tests the query for emptiness only, so a query of
  two spaces is searched for like any other text and the sample post is filtered out.
\<close>

theorem blank_query_counterexample:
  "search [samplePost] ''  '' False = Inr [] \<and> search [samplePost] ''  '' False \<noteq> Inr [samplePost]"
  by code_simp

text \<open>
  Claim C4, amended: for every dataset and both modes, the empty query (the only falsy
  text) returns the whole dataset, unfiltered and in its order.
\<close>

theorem empty_query:
  "search dataset [] False = Inr dataset \<and> search dataset [] True = Inr dataset"
  by (simp add: search_unfold)

section \<open>Loading\<close>


section \<open>Counts\<close>



section \<open>The loader and the date field\<close>




section \<open>The tag list\<close>




section \<open>Searching by tag\<close>

lemma lowerChar_hash: "lowerChar c = CHR ''#'' \<Longrightarrow> c = CHR ''#''"
proof (rule ccontr)
  assume l: "lowerChar c = CHR ''#''" and ne: "c \<noteq> CHR ''#''"
  then have r: "(65 \<le> code c \<and> code c \<le> 90) \<or> (192 \<le> code c \<and> code c \<le> 222 \<and> code c \<noteq> 215)"
    and eq: "char_of (code c + 32) = CHR ''#''"
    by (auto simp: lowerChar_def split: if_splits)
  from eq have "of_char (char_of (code c + 32) :: char) = (of_char (CHR ''#'') :: nat)" by simp
  then have "(code c + 32) mod 256 = 35" by simp
  with r show False by auto
qed

lemma toLowerCase_hash_free: "CHR ''#'' \<notin> set q \<Longrightarrow> CHR ''#'' \<notin> set (toLowerCase q)"
proof
  assume n: "CHR ''#'' \<notin> set q" and "CHR ''#'' \<in> set (toLowerCase q)"
  then obtain x where x: "x \<in> set q" "lowerChar x = CHR ''#''"
    by (auto simp: toLowerCase_def)
  then have "x = CHR ''#''" using lowerChar_hash by blast
  with x(1) n show False by simp
qed

lemma removeFirst_absent: "a \<notin> set s \<Longrightarrow> removeFirst a s = s"
  by (induction s) auto

lemma postMatches_tag_strings:
  "stringArray (hashtags p) \<Longrightarrow>
   postMatches query True p =
     Inr (\<exists>t\<in>set (tagTexts (hashtags p)).
            \<exists>pre suf. toLowerCase t = pre @ removeFirst (CHR ''#'') (toLowerCase query) @ suf)"
proof -
  assume "stringArray (hashtags p)"
  then have h: "hashtags p = JArray (map JString (tagTexts (hashtags p)))"
    by (rule stringArray_tagTexts)
  define ts where "ts = tagTexts (hashtags p)"
  have "postMatches query True p = someTag (removeFirst (CHR ''#'') (toLowerCase query)) (map JString ts)"
    using h unfolding ts_def [symmetric] by (simp add: postMatches_def)
  then show ?thesis unfolding ts_def by (simp add: someTag_strings includesStr_iff)
qed

text \<open>
  Claim C3, as stated: the tag search strips a leading \<open>#\<close> from the query. The code
  removes the first \<open>#\<close> wherever it stands: the query \<open>a#b\<close> is searched as \<open>ab\<close> and
  finds the post tagged \<open>ab\<close>, which the specification's search does not.
\<close>

theorem hash_inside_counterexample:
  "search [samplePost] ''a#b'' True = Inr [samplePost] \<and>
   specTagSearch [samplePost] ''a#b'' = []"
  by code_simp

text \<open>
  Claim C3, amended: for a non-empty query and a dataset whose hashtags are sequences of
  strings, the tag search keeps exactly the posts with at least one hashtag that,
  lower-cased, contains the lower-cased query with its first \<open>#\<close> removed, wherever that
  \<open>#\<close> stands. For every dataset the queries \<open>#travel\<close> and \<open>travel\<close> give the same
  result, and so do \<open>#q\<close> and \<open>q\<close> for every non-empty \<open>q\<close> without a \<open>#\<close>.
\<close>

theorem tag_search:
  "(query \<noteq> [] \<and> (\<forall>p\<in>set dataset. stringArray (hashtags p)) \<longrightarrow>
      search dataset query True =
        Inr (filter (\<lambda>p. \<exists>t\<in>set (tagTexts (hashtags p)).
                       \<exists>pre suf. toLowerCase t = pre @ removeFirst (CHR ''#'') (toLowerCase query) @ suf)
               dataset)) \<and>
   search dataset ''#travel'' True = search dataset ''travel'' True \<and>
   (query \<noteq> [] \<and> CHR ''#'' \<notin> set query \<longrightarrow>
      search dataset (CHR ''#'' # query) True = search dataset query True)"
proof -
  let ?P = "\<lambda>p. \<exists>t\<in>set (tagTexts (hashtags p)).
              \<exists>pre suf. toLowerCase t = pre @ removeFirst (CHR ''#'') (toLowerCase query) @ suf"
  have a: "search dataset query True = Inr (filter ?P dataset)"
    if "query \<noteq> []" "\<forall>p\<in>set dataset. stringArray (hashtags p)"
  proof -
    have "filterPosts (postMatches query True) dataset = Inr (filter ?P dataset)"
      using that(2) by (intro filterPosts_pure postMatches_tag_strings) blast
    then show ?thesis using that(1) by (simp add: search_unfold)
  qed
  have same: "search dataset (CHR ''#'' # q) True = search dataset q True"
    if "q \<noteq> []" "CHR ''#'' \<notin> set q" for q
  proof -
    have "removeFirst (CHR ''#'') (toLowerCase q) = toLowerCase q"
      using that(2) by (intro removeFirst_absent toLowerCase_hash_free)
    moreover have "toLowerCase (CHR ''#'' # q) = CHR ''#'' # toLowerCase q"
      by (simp add: toLowerCase_def lowerChar_def code_def)
    ultimately have needle: "removeFirst (CHR ''#'') (toLowerCase (CHR ''#'' # q)) =
        removeFirst (CHR ''#'') (toLowerCase q)"
      by simp
    have "postMatches (CHR ''#'' # q) True p = postMatches q True p" for p
      by (simp only: postMatches_def needle if_True)
    then have "postMatches (CHR ''#'' # q) True = postMatches q True" by blast
    then show ?thesis using that(1) by (simp add: search_unfold)
  qed
  have b: "search dataset ''#travel'' True = search dataset ''travel'' True"
    using same [of "''travel''"] by simp
  from a b same [of query] show ?thesis by blast
qed

theorem tag_search_witness:
  "''#TRAV'' \<noteq> [] \<and> stringArray (hashtags samplePost) \<and>
   search [samplePost] ''#TRAV'' True = Inr [samplePost] \<and>
   ''sun'' \<noteq> [] \<and> CHR ''#'' \<notin> set ''sun'' \<and>
   search [samplePost] ''#sun'' True = search [samplePost] ''sun'' True"
proof -
  have h1: "''#TRAV'' \<noteq> [] \<and> (\<forall>p\<in>set [samplePost]. stringArray (hashtags p))"
    by code_simp
  have h2: "''sun'' \<noteq> [] \<and> CHR ''#'' \<notin> set ''sun''" by simp
  have f: "filter (\<lambda>p. \<exists>t\<in>set (tagTexts (hashtags p)).
                       \<exists>pre suf. toLowerCase t = pre @ removeFirst (CHR ''#'') (toLowerCase ''#TRAV'') @ suf)
               [samplePost] = [samplePost]"
    unfolding includesStr_iff [symmetric] by code_simp
  have s: "stringArray (hashtags samplePost)" by code_simp
  show ?thesis
    using h1 h2 f s tag_search [of "''#TRAV''" "[samplePost]"] tag_search [of "''sun''" "[samplePost]"]
    by simp
qed

section \<open>Invariants of a loaded post\<close>












section \<open>Apostrophes in tags\<close>


lemma replaceAll_append: "replaceAll a b (xs @ ys) = replaceAll a b xs @ replaceAll a b ys"
  by (simp add: replaceAll_def)













end
